theory Spec2Isabelle
  imports Main "HOL-Library.Sublist" "HOL-Library.Multiset"
begin

section \<open>Embedding of config\_schizophrenia.py\<close>

text \<open>
  The program has four functions: \<open>find_config_files\<close>, \<open>compare_configs\<close>,
  \<open>check_env_vars\<close> and \<open>main\<close>. Each is translated below. What the program takes
  from outside is a parameter of the model:
  \<^item> the directory tree below the working directory, as the list of the paths that
    \<open>Path('.').rglob\<close> walks, in traversal order;
  \<^item> the outcome of opening and reading a path as text: the text, or the message of
    the exception that \<open>open\<close> or \<open>read\<close> raised;
  \<^item> the process environment \<open>os.environ\<close>, a finite map from names to values.
  Python's \<open>str\<close> is modelled by \<open>string\<close>; the operator \<open>in\<close> on two strings is
  \<^const>\<open>sublist\<close>, the contiguous-sublist test. Console output is not modelled.
\<close>

subsection \<open>Paths\<close>

text \<open>
  A \<open>pathlib\<close> path relative to the working directory is its tuple of components
  (\<open>path.parts\<close>). \<open>path.name\<close> is the final component, and \<open>str(path)\<close> joins the
  components with the POSIX separator.
\<close>

datatype path = Path (parts: "string list")

definition name :: "path \<Rightarrow> string" where
  "name p = (if parts p = [] then [] else last (parts p))"

fun join_parts :: "string list \<Rightarrow> string" where
  "join_parts [] = []"
| "join_parts [c] = c"
| "join_parts (c # d # cs) = c @ ''/'' @ join_parts (d # cs)"

definition str :: "path \<Rightarrow> string" where
  "str p = (if parts p = [] then ''.'' else join_parts (parts p))"

text \<open>
  A component of a path that exists in a directory tree is not empty and holds no
  separator; a path below the working directory has at least one component.
\<close>

definition wf_path :: "path \<Rightarrow> bool" where
  "wf_path p = (parts p \<noteq> [] \<and> (\<forall>c \<in> set (parts p). c \<noteq> [] \<and> CHR ''/'' \<notin> set c))"

subsection \<open>Glob matching\<close>

text \<open>
  Matching of one file name against one pattern, as \<open>rglob\<close> does it for the last
  component: \<open>*\<close> stands for any run of characters (also an empty one, also a leading
  dot), \<open>?\<close> for one character, every other character for itself. The five patterns of
  the program use \<open>*\<close> and literal characters only.
\<close>

fun fnmatch :: "string \<Rightarrow> string \<Rightarrow> bool" where
  "fnmatch [] [] = True"
| "fnmatch (c # cs) [] = False"
| "fnmatch [] (p # ps) = (p = CHR ''*'' \<and> fnmatch [] ps)"
| "fnmatch (c # cs) (p # ps) =
     (if p = CHR ''*'' then fnmatch (c # cs) ps \<or> fnmatch cs (p # ps)
      else if p = CHR ''?'' then fnmatch cs ps
      else p = c \<and> fnmatch cs ps)"

text \<open>
  \<open>Path('.').rglob(pattern)\<close>: the paths of the tree whose name matches, in traversal
  order.
\<close>

definition rglob :: "path list \<Rightarrow> string \<Rightarrow> path list" where
  "rglob tree pattern = filter (\<lambda>p. fnmatch (name p) pattern) tree"

subsection \<open>find\_config\_files\<close>

definition CONFIG_PATTERNS :: "string list" where
  "CONFIG_PATTERNS = [''.env'', ''config*.json'', ''settings*.py'', ''*.yaml'', ''*.yml'']"

definition EXCLUDED :: "string list" where
  "EXCLUDED = [''__pycache__'', ''venv'', ''.git'', ''node_modules'']"

text \<open>
  The guard of the inner loop,
  \<open>any(part in str(path) for part in ['__pycache__', 'venv', '.git', 'node_modules'])\<close>:
  each excluded name is looked for as a substring of the whole path string.
\<close>

definition skipped :: "path \<Rightarrow> bool" where
  "skipped p = list_ex (\<lambda>part. sublist part (str p)) EXCLUDED"

text \<open>
  \<open>defaultdict(list)\<close> keeps its keys in insertion order; it is an association list
  with distinct keys. \<open>configs[key].append(v)\<close> creates the key with an empty list
  when it is missing.
\<close>

type_synonym configs = "(string \<times> string list) list"

fun dict_append :: "configs \<Rightarrow> string \<Rightarrow> string \<Rightarrow> configs" where
  "dict_append [] key v = [(key, [v])]"
| "dict_append ((k, vs) # rest) key v =
     (if k = key then (k, vs @ [v]) # rest else (k, vs) # dict_append rest key v)"

fun scan_paths :: "configs \<Rightarrow> path list \<Rightarrow> configs" where
  "scan_paths configs [] = configs"
| "scan_paths configs (p # rest) =
     (if skipped p then scan_paths configs rest
      else scan_paths (dict_append configs (name p) (str p)) rest)"

fun scan_patterns :: "path list \<Rightarrow> configs \<Rightarrow> string list \<Rightarrow> configs" where
  "scan_patterns tree configs [] = configs"
| "scan_patterns tree configs (pattern # rest) =
     scan_patterns tree (scan_paths configs (rglob tree pattern)) rest"

definition find_config_files :: "path list \<Rightarrow> configs" where
  "find_config_files tree = scan_patterns tree [] CONFIG_PATTERNS"

subsection \<open>compare\_configs\<close>

text \<open>
  The outcome of \<open>open(path, 'r')\<close> followed by \<open>f.read()\<close>: \<open>Inr text\<close>, or
  \<open>Inl msg\<close> when an exception \<open>e\<close> with \<open>str(e) = msg\<close> was raised. What opening
  and reading raise (\<open>OSError\<close>, \<open>UnicodeDecodeError\<close>) is an \<open>Exception\<close>, the class
  that the handler of \<open>compare_configs\<close> catches.
\<close>

type_synonym reader = "string \<Rightarrow> string + string"

text \<open>The body of the \<open>try\<close> statement with its handler: one entry of \<open>contents\<close>.\<close>

definition read_content :: "reader \<Rightarrow> string \<Rightarrow> string \<times> string" where
  "read_content rd p =
     (case rd p of
        Inr text \<Rightarrow> (p, text)
      | Inl e \<Rightarrow> (p, ''ERROR: '' @ e))"

fun read_paths :: "reader \<Rightarrow> string list \<Rightarrow> (string \<times> string) list \<Rightarrow> (string \<times> string) list" where
  "read_paths rd [] contents = contents"
| "read_paths rd (p # rest) contents = read_paths rd rest (contents @ [read_content rd p])"

text \<open>
  One entry of the result, the dictionary with the keys \<open>'file'\<close>, \<open>'paths'\<close> and
  \<open>'differences'\<close> (the first is the field \<open>issue_file\<close> here).
\<close>

record issue =
  issue_file :: string
  paths :: "string list"
  differences :: bool

fun compare_groups :: "reader \<Rightarrow> configs \<Rightarrow> issue list \<Rightarrow> issue list" where
  "compare_groups rd [] issues = issues"
| "compare_groups rd ((filename, pths) # rest) issues =
     (if length pths > 1 then
        (let contents = read_paths rd pths [] in
         if card (set (map snd contents)) > 1
         then compare_groups rd rest
                (issues @ [\<lparr>issue_file = filename, paths = pths, differences = True\<rparr>])
         else compare_groups rd rest issues)
      else compare_groups rd rest issues)"

definition compare_configs :: "reader \<Rightarrow> configs \<Rightarrow> issue list" where
  "compare_configs rd configs = compare_groups rd configs []"

subsection \<open>check\_env\_vars\<close>

type_synonym environ = "string \<rightharpoonup> string"

definition suspects :: "string list" where
  "suspects = [''DATABASE_URL'', ''API_KEY'', ''SECRET'', ''DEBUG'', ''ENVIRONMENT'']"

text \<open>\<open>os.environ.get(key, default)\<close>.\<close>

definition environ_get :: "environ \<Rightarrow> string \<Rightarrow> string \<Rightarrow> string" where
  "environ_get env key dflt = (case env key of None \<Rightarrow> dflt | Some v \<Rightarrow> v)"

definition localhost_msg :: "string \<Rightarrow> string" where
  "localhost_msg suspect = suspect @ '': Using localhost in production? Bold.''"

definition not_set_msg :: "string \<Rightarrow> string" where
  "not_set_msg suspect = suspect @ '': Not set (probably fine... probably)''"

fun check_suspects :: "environ \<Rightarrow> string list \<Rightarrow> string list \<Rightarrow> string list" where
  "check_suspects env [] missing = missing"
| "check_suspects env (suspect # rest) missing =
     (case env suspect of
        Some v \<Rightarrow>
          if sublist ''localhost'' v \<and> sublist ''production'' (environ_get env ''ENVIRONMENT'' [])
          then check_suspects env rest (missing @ [localhost_msg suspect])
          else check_suspects env rest missing
      | None \<Rightarrow> check_suspects env rest (missing @ [not_set_msg suspect]))"

definition check_env_vars :: "environ \<Rightarrow> string list" where
  "check_env_vars env = check_suspects env suspects []"

subsection \<open>main\<close>

text \<open>The value that \<open>main\<close> returns and \<open>sys.exit\<close> turns into the exit status.\<close>

definition main :: "path list \<Rightarrow> reader \<Rightarrow> environ \<Rightarrow> int" where
  "main tree rd env =
     (let configs = find_config_files tree;
          issues = compare_configs rd configs;
          env_issues = check_env_vars env
      in if issues \<noteq> [] \<or> env_issues \<noteq> [] then 1 else 0)"

subsection \<open>Auxiliary definitions for the statements\<close>

text \<open>
  What one pass of the loop of \<open>check_env_vars\<close> appends for one suspect, and the
  condition of the localhost warning in the words of the specification.
\<close>

definition suspect_issue :: "environ \<Rightarrow> string \<Rightarrow> string list" where
  "suspect_issue env suspect =
     (case env suspect of
        Some v \<Rightarrow>
          if sublist ''localhost'' v \<and> sublist ''production'' (environ_get env ''ENVIRONMENT'' [])
          then [localhost_msg suspect] else []
      | None \<Rightarrow> [not_set_msg suspect])"

definition localhost_in_production :: "environ \<Rightarrow> string \<Rightarrow> bool" where
  "localhost_in_production env suspect =
     (case env suspect of
        None \<Rightarrow> False
      | Some v \<Rightarrow> sublist ''localhost'' v \<and> sublist ''production'' (environ_get env ''ENVIRONMENT'' []))"

text \<open>Two environments used as concrete inputs.\<close>

definition env_example :: environ where
  "env_example = [''ENVIRONMENT'' \<mapsto> ''production'', ''DATABASE_URL'' \<mapsto> ''http://localhost:5432'']"

definition env_self :: environ where
  "env_self = [''DATABASE_URL'' \<mapsto> ''postgres://db:5432'', ''API_KEY'' \<mapsto> ''k'',
     ''SECRET'' \<mapsto> ''s'', ''DEBUG'' \<mapsto> ''0'', ''ENVIRONMENT'' \<mapsto> ''production-db-at-localhost'']"

text \<open>
  The test that \<open>compare_configs\<close> makes on one entry of the dictionary, and what the
  entry adds to the result.
\<close>

definition divergent :: "reader \<Rightarrow> string list \<Rightarrow> bool" where
  "divergent rd pths =
     (1 < length pths \<and> 1 < card (set (map snd (read_paths rd pths []))))"

definition group_issues :: "reader \<Rightarrow> string \<times> string list \<Rightarrow> issue list" where
  "group_issues rd g =
     (if divergent rd (snd g)
      then [\<lparr>issue_file = fst g, paths = snd g, differences = True\<rparr>] else [])"

text \<open>
  Concrete inputs: a reader, a dictionary and a tree for a project with two
  \<open>config.json\<close>; a workflow file of a repository host; a clean environment.
\<close>

definition rd_example :: reader where
  "rd_example p =
     (if p = ''config.json'' then Inr ''{}''
      else if p = ''sub/config.json'' then Inl ''Permission denied''
      else if p = ''k8s/b.yml'' then Inl ''Is a directory''
      else Inr ''x: 1'')"

definition tree_example :: "path list" where
  "tree_example = [Path [''config.json''], Path [''sub'', ''config.json'']]"

definition ci_workflow :: path where
  "ci_workflow = Path [''.github'', ''workflows'', ''ci.yml'']"

definition env_clean :: environ where
  "env_clean = [''DATABASE_URL'' \<mapsto> ''postgres://db:5432'', ''API_KEY'' \<mapsto> ''k'',
     ''SECRET'' \<mapsto> ''s'', ''DEBUG'' \<mapsto> ''0'', ''ENVIRONMENT'' \<mapsto> ''staging'']"

definition configs_example :: configs where
  "configs_example =
     [(''.env'', [''.env'']),
      (''config.json'', [''config.json'', ''sub/config.json'']),
      (''a.yaml'', [''a.yaml'', ''k8s/a.yaml''])]"

text \<open>
  The text of an \<open>OSError\<close> that \<open>open\<close> raises for a file, as \<open>str(e)\<close> gives it:
  the error number, its description and the file name in single quotes.
\<close>

definition quoted :: "string \<Rightarrow> string" where
  "quoted s = [CHR 0x27] @ s @ [CHR 0x27]"

definition permission_denied :: "string \<Rightarrow> string" where
  "permission_denied p = ''[Errno 13] Permission denied: '' @ quoted p"

definition is_a_directory :: "string \<Rightarrow> string" where
  "is_a_directory p = ''[Errno 21] Is a directory: '' @ quoted p"

text \<open>
  A reader where \<open>a/config.json\<close> is unreadable and \<open>b/config.json\<close> holds the very
  text of the sentinel of the first; a reader and a dictionary for a project with
  readable files of different texts, of equal texts, and a directory named like a
  config file.
\<close>

definition rd_collision :: reader where
  "rd_collision p =
     (if p = ''a/config.json'' then Inl (permission_denied ''a/config.json'')
      else if p = ''b/config.json'' then Inr (''ERROR: '' @ permission_denied ''a/config.json'')
      else if p = ''c/config.json'' then Inl (is_a_directory ''c/config.json'')
      else Inr ''{}'')"

definition rd_project :: reader where
  "rd_project p =
     (if p = ''config.json'' then Inr ''{}''
      else if p = ''sub/config.json'' then Inr ''[]''
      else if p = ''k8s/b.yml'' then Inl (is_a_directory ''k8s/b.yml'')
      else Inr ''x: 1'')"

definition configs_project :: configs where
  "configs_project =
     [(''.env'', [''.env'']),
      (''config.json'', [''config.json'', ''sub/config.json'']),
      (''a.yaml'', [''a.yaml'', ''k8s/a.yaml'']),
      (''b.yml'', [''b.yml'', ''k8s/b.yml''])]"

text \<open>
  The dictionary read as the list of its (key, value) pairs, the paths that the two
  loops of \<open>find_config_files\<close> append, and patterns without a wildcard.
\<close>

definition entries :: "configs \<Rightarrow> (string \<times> string) list" where
  "entries configs = concat (map (\<lambda>(k, vs). map (Pair k) vs) configs)"

definition discovered :: "path list \<Rightarrow> path list" where
  "discovered tree =
     concat (map (\<lambda>pattern. filter (\<lambda>p. \<not> skipped p) (rglob tree pattern)) CONFIG_PATTERNS)"

definition literal :: "string \<Rightarrow> bool" where
  "literal pat = (CHR ''*'' \<notin> set pat \<and> CHR ''?'' \<notin> set pat)"

section \<open>Properties\<close>

subsection \<open>The environment auditor\<close>

lemma check_suspects_concat:
  "check_suspects env ss missing = missing @ concat (map (suspect_issue env) ss)"
  by (induction ss arbitrary: missing) (auto simp: suspect_issue_def split: option.splits)

lemma check_env_vars_concat:
  "check_env_vars env = concat (map (suspect_issue env) suspects)"
  by (simp add: check_env_vars_def check_suspects_concat)

lemma localhost_msg_inj [simp]: "(localhost_msg s = localhost_msg t) = (s = t)"
  by (simp add: localhost_msg_def)

lemma not_set_msg_inj [simp]: "(not_set_msg s = not_set_msg t) = (s = t)"
  by (simp add: not_set_msg_def)

text \<open>The two kinds of message end in different characters, whatever the names are.\<close>

lemma localhost_msg_neq_not_set [simp]:
  "localhost_msg s \<noteq> not_set_msg t" "not_set_msg t \<noteq> localhost_msg s"
proof -
  have "last (localhost_msg s) = CHR ''.''" by (simp add: localhost_msg_def)
  moreover have "last (not_set_msg t) = CHR '')''" by (simp add: not_set_msg_def)
  ultimately show "localhost_msg s \<noteq> not_set_msg t" by auto
  then show "not_set_msg t \<noteq> localhost_msg s" by simp
qed

lemma localhost_msg_in_issue:
  "(localhost_msg s \<in> set (suspect_issue env t)) = (s = t \<and> localhost_in_production env t)"
  by (auto simp: suspect_issue_def localhost_in_production_def split: option.splits)

lemma not_set_msg_in_issue:
  "(not_set_msg s \<in> set (suspect_issue env t)) = (s = t \<and> env t = None)"
  by (auto simp: suspect_issue_def split: option.splits)

lemma localhost_msg_in_result:
  "(localhost_msg s \<in> set (check_env_vars env)) = (s \<in> set suspects \<and> localhost_in_production env s)"
  by (auto simp: check_env_vars_concat localhost_msg_in_issue)

lemma not_set_msg_in_result:
  "(not_set_msg s \<in> set (check_env_vars env)) = (s \<in> set suspects \<and> env s = None)"
  by (auto simp: check_env_vars_concat not_set_msg_in_issue)





text \<open>
  C8. For every suspect of the fixed list, the result holds the "not set" message
  naming it when the variable is unset, and does not hold it when the variable is set.
\<close>

theorem not_set_iff:
  "s \<in> set suspects \<Longrightarrow> (not_set_msg s \<in> set (check_env_vars env)) = (env s = None)"
  by (simp add: not_set_msg_in_result)

theorem not_set_iff_witness:
  "''API_KEY'' \<in> set suspects \<and> env_example ''API_KEY'' = None \<and>
   not_set_msg ''API_KEY'' \<in> set (check_env_vars env_example) \<and>
   ''DATABASE_URL'' \<in> set suspects \<and> env_example ''DATABASE_URL'' \<noteq> None \<and>
   not_set_msg ''DATABASE_URL'' \<notin> set (check_env_vars env_example)"
proof -
  have a: "''DATABASE_URL'' \<in> set suspects" "''API_KEY'' \<in> set suspects"
    by (simp_all add: suspects_def)
  have b: "env_example ''DATABASE_URL'' \<noteq> None" "env_example ''API_KEY'' = None"
    by (simp_all add: env_example_def)
  from not_set_iff [OF a(1), of env_example] not_set_iff [OF a(2), of env_example] a b
  show ?thesis by simp
qed

text \<open>
  C9. ENVIRONMENT is a suspect like the others: when it is set to a value that contains
  both \<open>localhost\<close> and \<open>production\<close>, the result holds the localhost-in-production
  message naming ENVIRONMENT, whatever the other variables are.
\<close>

theorem environment_checked_itself:
  assumes "env ''ENVIRONMENT'' = Some v" and "sublist ''localhost'' v" and "sublist ''production'' v"
  shows "localhost_msg ''ENVIRONMENT'' \<in> set (check_env_vars env)"
  using assms
  by (simp add: localhost_msg_in_result localhost_in_production_def environ_get_def suspects_def)

theorem environment_checked_itself_witness:
  "env_self ''ENVIRONMENT'' = Some ''production-db-at-localhost'' \<and>
   sublist ''localhost'' ''production-db-at-localhost'' \<and>
   sublist ''production'' ''production-db-at-localhost'' \<and>
   localhost_msg ''ENVIRONMENT'' \<in> set (check_env_vars env_self) \<and>
   check_env_vars env_self = [''ENVIRONMENT: Using localhost in production? Bold.'']"
proof -
  have a: "env_self ''ENVIRONMENT'' = Some ''production-db-at-localhost''"
    by (simp add: env_self_def)
  have b: "sublist ''localhost'' ''production-db-at-localhost''"
    by (simp add: sublist_code)
  have c: "sublist ''production'' ''production-db-at-localhost''"
    by (simp add: sublist_code)
  have d: "check_env_vars env_self = [''ENVIRONMENT: Using localhost in production? Bold.'']"
    by (simp add: check_env_vars_def suspects_def env_self_def environ_get_def sublist_code localhost_msg_def)
  from environment_checked_itself [of env_self "''production-db-at-localhost''", OF a b c] a b c d
  show ?thesis by simp
qed

subsection \<open>The config comparator\<close>

lemma read_paths_map: "read_paths rd ps contents = contents @ map (read_content rd) ps"
  by (induction ps arbitrary: contents) auto

lemma fst_read_content [simp]: "fst (read_content rd p) = p"
  by (simp add: read_content_def split: sum.splits)

lemma compare_groups_concat:
  "compare_groups rd cs issues = issues @ concat (map (group_issues rd) cs)"
  by (induction cs arbitrary: issues) (auto simp: group_issues_def divergent_def Let_def)

lemma compare_configs_concat:
  "compare_configs rd configs = concat (map (group_issues rd) configs)"
  by (simp add: compare_configs_def compare_groups_concat)

lemma card_gt_1_iff: "finite A \<Longrightarrow> (Suc 0 < card A) = (\<exists>x\<in>A. \<exists>y\<in>A. x \<noteq> y)"
  using card_le_Suc0_iff_eq [of A] by (auto simp: not_le [symmetric])

lemma divergent_iff:
  "divergent rd ps =
     (1 < length ps \<and> (\<exists>p\<in>set ps. \<exists>q\<in>set ps. snd (read_content rd p) \<noteq> snd (read_content rd q)))"
proof -
  have "(Suc 0 < card (set (map snd (read_paths rd ps [])))) =
        (\<exists>p\<in>set ps. \<exists>q\<in>set ps. snd (read_content rd p) \<noteq> snd (read_content rd q))"
    by (simp add: read_paths_map card_gt_1_iff)
  then show ?thesis
    by (simp add: divergent_def)
qed

lemma filter_group_issues:
  "filter (\<lambda>i. issue_file i = f) (group_issues rd (k, ps)) =
     (if k = f then group_issues rd (k, ps) else [])"
  by (simp add: group_issues_def)

lemma filter_issues_absent:
  "f \<notin> fst ` set cs \<Longrightarrow> filter (\<lambda>i. issue_file i = f) (concat (map (group_issues rd) cs)) = []"
  by (induction cs) (auto simp: filter_group_issues)

lemma filter_issues_present:
  "distinct (map fst cs) \<Longrightarrow> (f, ps) \<in> set cs \<Longrightarrow>
     filter (\<lambda>i. issue_file i = f) (concat (map (group_issues rd) cs)) = group_issues rd (f, ps)"
proof (induction cs)
  case Nil
  then show ?case by simp
next
  case (Cons c cs)
  obtain k qs where c: "c = (k, qs)" by (cases c)
  show ?case
  proof (cases "k = f")
    case True
    with Cons.prems c have "qs = ps" "f \<notin> fst ` set cs"
      by (auto simp: image_iff)
    with True c show ?thesis
      by (simp add: filter_group_issues filter_issues_absent)
  next
    case False
    with Cons c show ?thesis
      by (auto simp: filter_group_issues)
  qed
qed


lemma group_issues_verdict:
  assumes "2 \<le> length ps"
  shows "group_issues rd (f, ps) =
           (if \<forall>p\<in>set ps. \<forall>q\<in>set ps. snd (read_content rd p) = snd (read_content rd q)
            then [] else [\<lparr>issue_file = f, paths = ps, differences = True\<rparr>])"
proof (cases "divergent rd ps")
  case True
  then have differ: "\<not> (\<forall>p\<in>set ps. \<forall>q\<in>set ps. snd (read_content rd p) = snd (read_content rd q))"
    unfolding divergent_iff by blast
  from True have "group_issues rd (f, ps) = [\<lparr>issue_file = f, paths = ps, differences = True\<rparr>]"
    by (simp add: group_issues_def)
  then show ?thesis
    by (simp only: if_not_P [OF differ])
next
  case False
  with assms have same: "\<forall>p\<in>set ps. \<forall>q\<in>set ps. snd (read_content rd p) = snd (read_content rd q)"
    unfolding divergent_iff by fastforce
  from False have "group_issues rd (f, ps) = []"
    by (simp add: group_issues_def)
  then show ?thesis
    by (simp only: if_P [OF same])
qed

lemma snd_read_content:
  "snd (read_content rd p) = (case rd p of Inr t \<Rightarrow> t | Inl e \<Rightarrow> ''ERROR: '' @ e)"
  by (simp add: read_content_def split: sum.splits)

text \<open>
  C4. For every basename of the dictionary with two or more paths, take for each path the
  value read: the text when the read succeeds, \<open>ERROR: \<close> followed by the message when
  it fails. When all these values are the same, the result holds no issue for the
  basename; when two of them differ, it holds exactly one, which carries the whole list
  of the basename's paths and the marker \<open>differences = True\<close>.
\<close>

theorem group_verdict:
  assumes "distinct (map fst configs)" and "(f, ps) \<in> set configs" and "2 \<le> length ps"
  shows "filter (\<lambda>i. issue_file i = f) (compare_configs rd configs) =
           (if \<forall>p\<in>set ps. \<forall>q\<in>set ps.
                 (case rd p of Inr t \<Rightarrow> t | Inl e \<Rightarrow> ''ERROR: '' @ e) =
                 (case rd q of Inr t \<Rightarrow> t | Inl e \<Rightarrow> ''ERROR: '' @ e)
            then [] else [\<lparr>issue_file = f, paths = ps, differences = True\<rparr>])"
  unfolding compare_configs_concat filter_issues_present [OF assms(1,2)]
  by (rule group_issues_verdict [OF assms(3), unfolded snd_read_content])

text \<open>
  C6. A basename whose list holds exactly one path is never the file of an issue,
  whatever reading that path gives.
\<close>

theorem single_path_never_flagged:
  assumes "distinct (map fst configs)" and "(f, [p]) \<in> set configs"
  shows "f \<notin> issue_file ` set (compare_configs rd configs)"
proof -
  have "filter (\<lambda>i. issue_file i = f) (compare_configs rd configs) = group_issues rd (f, [p])"
    unfolding compare_configs_concat by (rule filter_issues_present [OF assms])
  then have "filter (\<lambda>i. issue_file i = f) (compare_configs rd configs) = []"
    by (simp add: group_issues_def divergent_def)
  then show ?thesis
    by (auto simp: filter_empty_conv)
qed

lemma issue_in_result:
  "(i \<in> set (compare_configs rd configs)) =
     (\<exists>g\<in>set configs. divergent rd (snd g) \<and> i = \<lparr>issue_file = fst g, paths = snd g, differences = True\<rparr>)"
  by (auto simp: compare_configs_concat group_issues_def)

text \<open>
  C7. When reading a path of a group with several paths fails with a message, the value
  recorded for that path is \<open>ERROR: \<close> followed by the message, every path of the
  group still gets its entry, and the run goes on: for every group of the dictionary the
  result holds the group's issue exactly when the group has several paths and more than
  one distinct value.
\<close>

theorem read_failure_recovered:
  assumes "(f, ps) \<in> set configs" and "1 < length ps" and "p \<in> set ps" and "rd p = Inl msg"
  shows "read_content rd p = (p, ''ERROR: '' @ msg)
       \<and> (p, ''ERROR: '' @ msg) \<in> set (read_paths rd ps [])
       \<and> map fst (read_paths rd ps []) = ps
       \<and> (\<forall>g \<in> set configs.
            (\<lparr>issue_file = fst g, paths = snd g, differences = True\<rparr> \<in> set (compare_configs rd configs)) =
            (1 < length (snd g) \<and> 1 < card (set (map snd (read_paths rd (snd g) [])))))"
proof (intro conjI ballI)
  show a: "read_content rd p = (p, ''ERROR: '' @ msg)"
    using assms(4) by (simp add: read_content_def)
  show "(p, ''ERROR: '' @ msg) \<in> set (read_paths rd ps [])"
    using assms(3) a by (force simp: read_paths_map)
  show "map fst (read_paths rd ps []) = ps"
    by (simp add: read_paths_map comp_def)
next
  fix g assume "g \<in> set configs"
  then show "(\<lparr>issue_file = fst g, paths = snd g, differences = True\<rparr> \<in> set (compare_configs rd configs)) =
            (1 < length (snd g) \<and> 1 < card (set (map snd (read_paths rd (snd g) []))))"
    unfolding issue_in_result divergent_def [symmetric]
    by (cases g) auto
qed

lemma compare_pair:
  "compare_configs rd [(f, [p, q])] =
     (if snd (read_content rd p) = snd (read_content rd q) then []
      else [\<lparr>issue_file = f, paths = [p, q], differences = True\<rparr>])"
  by (simp add: compare_configs_def)

text \<open>
  C5, as stated, fails. \<open>a/config.json\<close> cannot be opened and the read raises
  \<open>[Errno 13] Permission denied: 'a/config.json'\<close>; \<open>b/config.json\<close> is readable and its
  text is \<open>ERROR: [Errno 13] Permission denied: 'a/config.json'\<close>. The sentinel of the
  first is equal to the content of the second, and the group of the two is not reported.
\<close>

theorem sentinel_collides_counterexample:
  "permission_denied ''a/config.json'' =
     ''[Errno 13] Permission denied: '' @ [CHR 0x27] @ ''a/config.json'' @ [CHR 0x27] \<and>
   rd_collision ''a/config.json'' = Inl (permission_denied ''a/config.json'') \<and>
   rd_collision ''b/config.json'' = Inr (''ERROR: '' @ permission_denied ''a/config.json'') \<and>
   read_content rd_collision ''a/config.json'' =
     (''a/config.json'', ''ERROR: '' @ permission_denied ''a/config.json'') \<and>
   read_content rd_collision ''b/config.json'' =
     (''b/config.json'', ''ERROR: '' @ permission_denied ''a/config.json'') \<and>
   compare_configs rd_collision [(''config.json'', [''a/config.json'', ''b/config.json''])] = []"
proof -
  have a: "permission_denied ''a/config.json'' =
     ''[Errno 13] Permission denied: '' @ [CHR 0x27] @ ''a/config.json'' @ [CHR 0x27]"
    by (simp add: permission_denied_def quoted_def)
  have b: "rd_collision ''a/config.json'' = Inl (permission_denied ''a/config.json'')"
    and c: "rd_collision ''b/config.json'' = Inr (''ERROR: '' @ permission_denied ''a/config.json'')"
    by (simp_all add: rd_collision_def)
  have d: "read_content rd_collision ''a/config.json'' =
     (''a/config.json'', ''ERROR: '' @ permission_denied ''a/config.json'')"
    by (simp add: read_content_def b)
  have e: "read_content rd_collision ''b/config.json'' =
     (''b/config.json'', ''ERROR: '' @ permission_denied ''a/config.json'')"
    by (simp add: read_content_def c)
  have f: "compare_configs rd_collision [(''config.json'', [''a/config.json'', ''b/config.json''])] = []"
    by (simp add: compare_configs_def d e)
  from a b c d e f show ?thesis by (intro conjI)
qed

text \<open>
  C5, amended. The value recorded for a failed read is \<open>ERROR: \<close> followed by the error
  message, and the value recorded for a successful read is the text. The sentinel is
  equal to the content of a readable file exactly when that content is itself
  \<open>ERROR: \<close> followed by the same message, and the sentinels of two failed reads are
  equal exactly when the two messages are; a group of two such paths is left out of the
  result in exactly these cases.
\<close>

theorem sentinel_equalities:
  "(rd p = Inl m \<longrightarrow> read_content rd p = (p, ''ERROR: '' @ m))
   \<and> (rd q = Inr c \<longrightarrow> read_content rd q = (q, c))
   \<and> (rd p = Inl m \<and> rd q = Inr c \<longrightarrow>
        (snd (read_content rd p) = snd (read_content rd q)) = (c = ''ERROR: '' @ m)
        \<and> (compare_configs rd [(f, [p, q])] = []) = (c = ''ERROR: '' @ m))
   \<and> (rd p = Inl m \<and> rd q = Inl m' \<longrightarrow>
        (snd (read_content rd p) = snd (read_content rd q)) = (m = m')
        \<and> (compare_configs rd [(f, [p, q])] = []) = (m = m'))"
  by (auto simp: compare_pair snd_read_content) (simp_all add: read_content_def)

lemma configs_example_distinct: "distinct (map fst configs_example)"
  by (simp add: configs_example_def)

lemma configs_project_distinct: "distinct (map fst configs_project)"
  by (simp add: configs_project_def)

theorem group_verdict_witness:
  "distinct (map fst configs_project) \<and>
   (''config.json'', [''config.json'', ''sub/config.json'']) \<in> set configs_project \<and>
   rd_project ''config.json'' = Inr ''{}'' \<and> rd_project ''sub/config.json'' = Inr ''[]'' \<and>
   filter (\<lambda>i. issue_file i = ''config.json'') (compare_configs rd_project configs_project) =
     [\<lparr>issue_file = ''config.json'', paths = [''config.json'', ''sub/config.json''], differences = True\<rparr>] \<and>
   (''a.yaml'', [''a.yaml'', ''k8s/a.yaml'']) \<in> set configs_project \<and>
   rd_project ''a.yaml'' = Inr ''x: 1'' \<and> rd_project ''k8s/a.yaml'' = Inr ''x: 1'' \<and>
   filter (\<lambda>i. issue_file i = ''a.yaml'') (compare_configs rd_project configs_project) = [] \<and>
   (''b.yml'', [''b.yml'', ''k8s/b.yml'']) \<in> set configs_project \<and>
   rd_project ''b.yml'' = Inr ''x: 1'' \<and>
   rd_project ''k8s/b.yml'' = Inl (is_a_directory ''k8s/b.yml'') \<and>
   filter (\<lambda>i. issue_file i = ''b.yml'') (compare_configs rd_project configs_project) =
     [\<lparr>issue_file = ''b.yml'', paths = [''b.yml'', ''k8s/b.yml''], differences = True\<rparr>]"
proof -
  have m1: "(''config.json'', [''config.json'', ''sub/config.json'']) \<in> set configs_project"
    and m2: "(''a.yaml'', [''a.yaml'', ''k8s/a.yaml'']) \<in> set configs_project"
    and m3: "(''b.yml'', [''b.yml'', ''k8s/b.yml'']) \<in> set configs_project"
    by (simp_all add: configs_project_def)
  have l1: "2 \<le> length [''config.json'', ''sub/config.json'']"
    and l2: "2 \<le> length [''a.yaml'', ''k8s/a.yaml'']"
    and l3: "2 \<le> length [''b.yml'', ''k8s/b.yml'']"
    by simp_all
  have c1: "rd_project ''config.json'' = Inr ''{}''"
    and c2: "rd_project ''sub/config.json'' = Inr ''[]''"
    and c3: "rd_project ''a.yaml'' = Inr ''x: 1''"
    and c4: "rd_project ''k8s/a.yaml'' = Inr ''x: 1''"
    and c5: "rd_project ''b.yml'' = Inr ''x: 1''"
    and c6: "rd_project ''k8s/b.yml'' = Inl (is_a_directory ''k8s/b.yml'')"
    by (simp_all add: rd_project_def)
  from group_verdict [OF configs_project_distinct m1 l1, of rd_project]
  have r1: "filter (\<lambda>i. issue_file i = ''config.json'') (compare_configs rd_project configs_project) =
     [\<lparr>issue_file = ''config.json'', paths = [''config.json'', ''sub/config.json''], differences = True\<rparr>]"
    by (simp add: c1 c2)
  from group_verdict [OF configs_project_distinct m2 l2, of rd_project]
  have r2: "filter (\<lambda>i. issue_file i = ''a.yaml'') (compare_configs rd_project configs_project) = []"
    by (simp add: c3 c4)
  from group_verdict [OF configs_project_distinct m3 l3, of rd_project]
  have r3: "filter (\<lambda>i. issue_file i = ''b.yml'') (compare_configs rd_project configs_project) =
     [\<lparr>issue_file = ''b.yml'', paths = [''b.yml'', ''k8s/b.yml''], differences = True\<rparr>]"
    by (simp add: c5 c6)
  from configs_project_distinct m1 c1 c2 r1 m2 c3 c4 r2 m3 c5 c6 r3 show ?thesis
    by (intro conjI)
qed

theorem single_path_never_flagged_witness:
  "distinct (map fst configs_example) \<and> (''.env'', [''.env'']) \<in> set configs_example \<and>
   ''.env'' \<notin> issue_file ` set (compare_configs rd_example configs_example)"
proof -
  have m: "(''.env'', [''.env'']) \<in> set configs_example"
    by (simp add: configs_example_def)
  from single_path_never_flagged [OF configs_example_distinct m, of rd_example]
    configs_example_distinct m
  show ?thesis by (intro conjI)
qed

theorem read_failure_recovered_witness:
  "(''config.json'', [''config.json'', ''sub/config.json'']) \<in> set configs_example \<and>
   1 < length [''config.json'', ''sub/config.json''] \<and>
   ''sub/config.json'' \<in> set [''config.json'', ''sub/config.json''] \<and>
   rd_example ''sub/config.json'' = Inl ''Permission denied'' \<and>
   read_content rd_example ''sub/config.json'' = (''sub/config.json'', ''ERROR: Permission denied'') \<and>
   map fst (read_paths rd_example [''config.json'', ''sub/config.json''] []) =
     [''config.json'', ''sub/config.json''] \<and>
   \<lparr>issue_file = ''config.json'', paths = [''config.json'', ''sub/config.json''], differences = True\<rparr>
     \<in> set (compare_configs rd_example configs_example) \<and>
   \<lparr>issue_file = ''a.yaml'', paths = [''a.yaml'', ''k8s/a.yaml''], differences = True\<rparr>
     \<notin> set (compare_configs rd_example configs_example)"
proof -
  have m: "(''config.json'', [''config.json'', ''sub/config.json'']) \<in> set configs_example"
    and m2: "(''a.yaml'', [''a.yaml'', ''k8s/a.yaml'']) \<in> set configs_example"
    by (simp_all add: configs_example_def)
  have l: "1 < length [''config.json'', ''sub/config.json'']" by simp
  have p: "''sub/config.json'' \<in> set [''config.json'', ''sub/config.json'']" by simp
  have r: "rd_example ''sub/config.json'' = Inl ''Permission denied''"
    by (simp add: rd_example_def)
  have d1: "1 < card (set (map snd (read_paths rd_example [''config.json'', ''sub/config.json''] [])))"
    by (simp add: read_content_def rd_example_def)
  have d2: "\<not> 1 < card (set (map snd (read_paths rd_example [''a.yaml'', ''k8s/a.yaml''] [])))"
    by (simp add: read_content_def rd_example_def)
  note t = read_failure_recovered [where rd = rd_example and p = "''sub/config.json''"
      and msg = "''Permission denied''", OF m l p r]
  from t have a: "read_content rd_example ''sub/config.json'' = (''sub/config.json'', ''ERROR: Permission denied'')"
    by simp
  from t have b: "map fst (read_paths rd_example [''config.json'', ''sub/config.json''] []) =
     [''config.json'', ''sub/config.json'']"
    by blast
  from t have q: "\<forall>g \<in> set configs_example.
            (\<lparr>issue_file = fst g, paths = snd g, differences = True\<rparr> \<in> set (compare_configs rd_example configs_example)) =
            (1 < length (snd g) \<and> 1 < card (set (map snd (read_paths rd_example (snd g) []))))"
    by blast
  from bspec [OF q m] d1
  have c: "\<lparr>issue_file = ''config.json'', paths = [''config.json'', ''sub/config.json''], differences = True\<rparr>
     \<in> set (compare_configs rd_example configs_example)"
    by simp
  from bspec [OF q m2] d2
  have d: "\<lparr>issue_file = ''a.yaml'', paths = [''a.yaml'', ''k8s/a.yaml''], differences = True\<rparr>
     \<notin> set (compare_configs rd_example configs_example)"
    by simp
  from m l p r a b c d show ?thesis
    by (intro conjI)
qed

theorem sentinel_equalities_witness:
  "rd_collision ''a/config.json'' = Inl (permission_denied ''a/config.json'') \<and>
   rd_collision ''b/config.json'' = Inr (''ERROR: '' @ permission_denied ''a/config.json'') \<and>
   read_content rd_collision ''a/config.json'' =
     (''a/config.json'', ''ERROR: '' @ permission_denied ''a/config.json'') \<and>
   compare_configs rd_collision [(''config.json'', [''a/config.json'', ''b/config.json''])] = [] \<and>
   rd_collision ''d/config.json'' = Inr ''{}'' \<and>
   read_content rd_collision ''d/config.json'' = (''d/config.json'', ''{}'') \<and>
   snd (read_content rd_collision ''a/config.json'') \<noteq> snd (read_content rd_collision ''d/config.json'') \<and>
   compare_configs rd_collision [(''config.json'', [''a/config.json'', ''d/config.json''])] \<noteq> [] \<and>
   rd_collision ''c/config.json'' = Inl (is_a_directory ''c/config.json'') \<and>
   snd (read_content rd_collision ''a/config.json'') \<noteq> snd (read_content rd_collision ''c/config.json'') \<and>
   compare_configs rd_collision [(''config.json'', [''a/config.json'', ''c/config.json''])] \<noteq> []"
proof -
  have a: "rd_collision ''a/config.json'' = Inl (permission_denied ''a/config.json'')"
    and b: "rd_collision ''b/config.json'' = Inr (''ERROR: '' @ permission_denied ''a/config.json'')"
    and c: "rd_collision ''c/config.json'' = Inl (is_a_directory ''c/config.json'')"
    and d: "rd_collision ''d/config.json'' = Inr ''{}''"
    by (simp_all add: rd_collision_def)
  have n1: "''{}'' \<noteq> ''ERROR: '' @ permission_denied ''a/config.json''"
    by simp
  have n2: "permission_denied ''a/config.json'' \<noteq> is_a_directory ''c/config.json''"
    by (simp add: permission_denied_def is_a_directory_def)
  note t1 = sentinel_equalities [of rd_collision "''a/config.json''" "permission_denied ''a/config.json''"
      "''b/config.json''" "''ERROR: '' @ permission_denied ''a/config.json''" "''config.json''"]
  note t2 = sentinel_equalities [of rd_collision "''a/config.json''" "permission_denied ''a/config.json''"
      "''d/config.json''" "''{}''" "''config.json''"]
  note t3 = sentinel_equalities [of rd_collision "''a/config.json''" "permission_denied ''a/config.json''"
      "''c/config.json''" _ "''config.json''" "is_a_directory ''c/config.json''"]
  from t1 a have r0: "read_content rd_collision ''a/config.json'' =
     (''a/config.json'', ''ERROR: '' @ permission_denied ''a/config.json'')"
    by blast
  from t1 a b have r1: "compare_configs rd_collision [(''config.json'', [''a/config.json'', ''b/config.json''])] = []"
    by blast
  from t2 d have r2: "read_content rd_collision ''d/config.json'' = (''d/config.json'', ''{}'')"
    by blast
  from t2 a d n1
  have r3: "snd (read_content rd_collision ''a/config.json'') \<noteq> snd (read_content rd_collision ''d/config.json'')"
    and r4: "compare_configs rd_collision [(''config.json'', [''a/config.json'', ''d/config.json''])] \<noteq> []"
    by blast+
  from t3 a c n2
  have r5: "snd (read_content rd_collision ''a/config.json'') \<noteq> snd (read_content rd_collision ''c/config.json'')"
    and r6: "compare_configs rd_collision [(''config.json'', [''a/config.json'', ''c/config.json''])] \<noteq> []"
    by blast+
  from a b r0 r1 d r2 r3 r4 c r5 r6 show ?thesis
    by (intro conjI)
qed

subsection \<open>The exit status\<close>

text \<open>
  C3. \<open>main\<close> returns 0 when the list of divergent groups and the list of environment
  issues are both empty and 1 otherwise; it returns nothing else.
\<close>

theorem exit_status:
  "main tree rd env =
     (if compare_configs rd (find_config_files tree) = [] \<and> check_env_vars env = [] then 0 else 1)
   \<and> (main tree rd env = 0 \<or> main tree rd env = 1)"
  by (simp add: main_def Let_def)

lemma find_config_files_Nil: "find_config_files [] = []"
  by (simp add: find_config_files_def CONFIG_PATTERNS_def rglob_def)

lemma check_env_vars_clean: "check_env_vars env_clean = []"
  by (simp add: check_env_vars_def suspects_def env_clean_def environ_get_def sublist_code)

lemma find_config_files_example:
  "find_config_files tree_example = [(''config.json'', [''config.json'', ''sub/config.json''])]"
  by (simp add: find_config_files_def CONFIG_PATTERNS_def rglob_def tree_example_def name_def
      str_def skipped_def EXCLUDED_def sublist_code)

theorem exit_status_witness:
  "main [] rd_example env_clean = 0 \<and> main tree_example rd_example env_clean = 1 \<and>
   main [] rd_example Map.empty = 1"
proof -
  have a: "compare_configs rd_example (find_config_files []) = []"
    by (simp add: find_config_files_Nil compare_configs_def)
  have b: "compare_configs rd_example (find_config_files tree_example) \<noteq> []"
    by (simp add: find_config_files_example compare_configs_def read_content_def rd_example_def)
  have c: "check_env_vars Map.empty \<noteq> []"
    by (simp add: check_env_vars_def suspects_def)
  from exit_status [of "[]" rd_example env_clean] a check_env_vars_clean
  have r1: "main [] rd_example env_clean = 0" by simp
  from exit_status [of tree_example rd_example env_clean] b
  have r2: "main tree_example rd_example env_clean = 1" by simp
  from exit_status [of "[]" rd_example Map.empty] c
  have r3: "main [] rd_example Map.empty = 1" by simp
  from r1 r2 r3 show ?thesis by (intro conjI)
qed

subsection \<open>The file discoverer\<close>

text \<open>A path with an excluded component is skipped; the converse fails, see below.\<close>

lemma sublist_join_parts: "c \<in> set cs \<Longrightarrow> sublist c (join_parts cs)"
proof (induction cs rule: join_parts.induct)
  case 1
  then show ?case by simp
next
  case (2 c')
  then show ?case by simp
next
  case (3 c' d cs)
  show ?case
  proof (cases "c = c'")
    case True
    then show ?thesis by simp
  next
    case False
    with 3 have "sublist c (join_parts (d # cs))" by simp
    then have "sublist c ((c' @ ''/'') @ join_parts (d # cs))"
      by (rule sublist_order.order_trans) (rule suffix_imp_sublist, rule suffix_appendI, rule suffix_order.order_refl)
    then show ?thesis by simp
  qed
qed

lemma excluded_component_skipped:
  assumes "c \<in> set (parts p)" and "c \<in> set EXCLUDED"
  shows "skipped p"
proof -
  from assms(1) have "parts p \<noteq> []" by auto
  with assms(1) have "sublist c (str p)"
    by (simp add: str_def sublist_join_parts)
  with assms(2) show ?thesis
    unfolding skipped_def list_ex_iff by blast
qed

text \<open>
  C1. The path \<open>.github/workflows/ci.yml\<close> matches the pattern \<open>*.yml\<close> and none of
  its components is an excluded name, yet the guard skips it, because \<open>.git\<close> is a
  substring of \<open>.github\<close>: the guard tests substrings of the path string, not
  components.
\<close>

theorem github_workflow_skipped:
  "fnmatch (name ci_workflow) ''*.yml'' \<and> ''*.yml'' \<in> set CONFIG_PATTERNS \<and>
   set (parts ci_workflow) \<inter> set EXCLUDED = {} \<and>
   skipped ci_workflow \<and> find_config_files [ci_workflow] = []"
proof -
  have a: "fnmatch (name ci_workflow) ''*.yml''"
    by (simp add: ci_workflow_def name_def)
  have b: "''*.yml'' \<in> set CONFIG_PATTERNS"
    by (simp add: CONFIG_PATTERNS_def)
  have c: "set (parts ci_workflow) \<inter> set EXCLUDED = {}"
    by (simp add: ci_workflow_def EXCLUDED_def)
  have d: "skipped ci_workflow"
    by (simp add: skipped_def EXCLUDED_def ci_workflow_def str_def sublist_code)
  have e: "find_config_files [ci_workflow] = []"
    by (simp add: find_config_files_def CONFIG_PATTERNS_def rglob_def d)
  from a b c d e show ?thesis by (intro conjI)
qed

text \<open>The five patterns: what a matching name looks like, and that no name matches two.\<close>

lemma fnmatch_literal: "literal pat \<Longrightarrow> fnmatch n pat = (n = pat)"
proof (induction pat arbitrary: n)
  case Nil
  then show ?case by (cases n) simp_all
next
  case (Cons p ps)
  then have "literal ps" "p \<noteq> CHR ''*''" "p \<noteq> CHR ''?''"
    by (auto simp: literal_def)
  with Cons.IH show ?case
    by (cases n) auto
qed

lemma fnmatch_star_literal:
  "literal pat \<Longrightarrow> fnmatch n (CHR ''*'' # pat) = suffix pat n"
proof (induction n)
  case Nil
  then show ?case
    by (cases pat) (auto simp: literal_def)
next
  case (Cons c cs)
  then show ?case
    by (auto simp: fnmatch_literal suffix_Cons)
qed

lemma fnmatch_literal_prefix:
  "literal pre \<Longrightarrow> fnmatch n (pre @ pat) \<Longrightarrow> prefix pre n \<and> fnmatch (drop (length pre) n) pat"
proof (induction pre arbitrary: n)
  case Nil
  then show ?case by simp
next
  case (Cons p ps)
  then have "literal ps" "p \<noteq> CHR ''*''" "p \<noteq> CHR ''?''"
    by (auto simp: literal_def)
  with Cons.IH Cons.prems(2) show ?case
    by (cases n) auto
qed

lemma fnmatch_env: "fnmatch n ''.env'' = (n = ''.env'')"
  by (rule fnmatch_literal) (simp add: literal_def)

lemma fnmatch_yaml: "fnmatch n ''*.yaml'' = suffix ''.yaml'' n"
  by (rule fnmatch_star_literal) (simp add: literal_def)

lemma fnmatch_yml: "fnmatch n ''*.yml'' = suffix ''.yml'' n"
  by (rule fnmatch_star_literal) (simp add: literal_def)

lemma fnmatch_json:
  assumes "fnmatch n ''config*.json''"
  shows "prefix ''config'' n \<and> suffix ''.json'' n"
proof -
  have "literal ''config''" by (simp add: literal_def)
  from fnmatch_literal_prefix [OF this, of n "''*.json''"] assms
  have a: "prefix ''config'' n" and b: "fnmatch (drop (length ''config'') n) ''*.json''"
    by simp_all
  have "literal ''.json''" by (simp add: literal_def)
  from b have "suffix ''.json'' (drop (length ''config'') n)"
    unfolding fnmatch_star_literal [OF \<open>literal ''.json''\<close>] .
  then have "suffix ''.json'' n"
    using suffix_drop suffix_order.order_trans by blast
  with a show ?thesis by simp
qed

lemma fnmatch_py:
  assumes "fnmatch n ''settings*.py''"
  shows "prefix ''settings'' n \<and> suffix ''.py'' n"
proof -
  have "literal ''settings''" by (simp add: literal_def)
  from fnmatch_literal_prefix [OF this, of n "''*.py''"] assms
  have a: "prefix ''settings'' n" and b: "fnmatch (drop (length ''settings'') n) ''*.py''"
    by simp_all
  have "literal ''.py''" by (simp add: literal_def)
  from b have "suffix ''.py'' (drop (length ''settings'') n)"
    unfolding fnmatch_star_literal [OF \<open>literal ''.py''\<close>] .
  then have "suffix ''.py'' n"
    using suffix_drop suffix_order.order_trans by blast
  with a show ?thesis by simp
qed


lemma suffix_clash:
  assumes "suffix xs n" and "suffix ys n" and "length xs \<le> length ys" and "\<not> suffix xs ys"
  shows False
  using suffix_length_suffix [OF assms(1,2,3)] assms(4) by simp

lemma prefix_clash:
  assumes "prefix xs n" and "prefix ys n" and "length xs \<le> length ys" and "\<not> prefix xs ys"
  shows False
  using prefix_length_prefix [OF assms(1,2,3)] assms(4) by simp

lemma patterns_disjoint:
  assumes "a \<in> set CONFIG_PATTERNS" and "b \<in> set CONFIG_PATTERNS"
    and "fnmatch n a" and "fnmatch n b"
  shows "a = b"
proof (rule ccontr)
  assume neq: "a \<noteq> b"
  have env_json: "\<not> (fnmatch n ''.env'' \<and> fnmatch n ''config*.json'')"
    by (auto simp: fnmatch_env dest!: fnmatch_json)
  have env_py: "\<not> (fnmatch n ''.env'' \<and> fnmatch n ''settings*.py'')"
    by (auto simp: fnmatch_env dest!: fnmatch_py)
  have env_yaml: "\<not> (fnmatch n ''.env'' \<and> fnmatch n ''*.yaml'')"
    by (auto simp: fnmatch_env fnmatch_yaml suffix_to_prefix)
  have env_yml: "\<not> (fnmatch n ''.env'' \<and> fnmatch n ''*.yml'')"
    by (auto simp: fnmatch_env fnmatch_yml suffix_to_prefix)
  have json_py: "\<not> (fnmatch n ''config*.json'' \<and> fnmatch n ''settings*.py'')"
  proof
    assume "fnmatch n ''config*.json'' \<and> fnmatch n ''settings*.py''"
    then have "prefix ''config'' n" "prefix ''settings'' n"
      by (auto dest: fnmatch_json fnmatch_py)
    then show False
      by (rule prefix_clash) simp_all
  qed
  have json_yaml: "\<not> (fnmatch n ''config*.json'' \<and> fnmatch n ''*.yaml'')"
  proof
    assume "fnmatch n ''config*.json'' \<and> fnmatch n ''*.yaml''"
    then have "suffix ''.json'' n" "suffix ''.yaml'' n"
      by (auto simp: fnmatch_yaml dest: fnmatch_json)
    then show False
      by (rule suffix_clash) (simp_all add: suffix_to_prefix)
  qed
  have json_yml: "\<not> (fnmatch n ''config*.json'' \<and> fnmatch n ''*.yml'')"
  proof
    assume "fnmatch n ''config*.json'' \<and> fnmatch n ''*.yml''"
    then have "suffix ''.yml'' n" "suffix ''.json'' n"
      by (auto simp: fnmatch_yml dest: fnmatch_json)
    then show False
      by (rule suffix_clash) (simp_all add: suffix_to_prefix)
  qed
  have py_yaml: "\<not> (fnmatch n ''settings*.py'' \<and> fnmatch n ''*.yaml'')"
  proof
    assume "fnmatch n ''settings*.py'' \<and> fnmatch n ''*.yaml''"
    then have "suffix ''.py'' n" "suffix ''.yaml'' n"
      by (auto simp: fnmatch_yaml dest: fnmatch_py)
    then show False
      by (rule suffix_clash) (simp_all add: suffix_to_prefix)
  qed
  have py_yml: "\<not> (fnmatch n ''settings*.py'' \<and> fnmatch n ''*.yml'')"
  proof
    assume "fnmatch n ''settings*.py'' \<and> fnmatch n ''*.yml''"
    then have "suffix ''.py'' n" "suffix ''.yml'' n"
      by (auto simp: fnmatch_yml dest: fnmatch_py)
    then show False
      by (rule suffix_clash) (simp_all add: suffix_to_prefix)
  qed
  have yaml_yml: "\<not> (fnmatch n ''*.yaml'' \<and> fnmatch n ''*.yml'')"
  proof
    assume "fnmatch n ''*.yaml'' \<and> fnmatch n ''*.yml''"
    then have "suffix ''.yml'' n" "suffix ''.yaml'' n"
      by (auto simp: fnmatch_yml fnmatch_yaml)
    then show False
      by (rule suffix_clash) (simp_all add: suffix_to_prefix)
  qed
  from assms(1) have a: "a = ''.env'' \<or> a = ''config*.json'' \<or> a = ''settings*.py'' \<or>
      a = ''*.yaml'' \<or> a = ''*.yml''"
    by (simp add: CONFIG_PATTERNS_def)
  from assms(2) have b: "b = ''.env'' \<or> b = ''config*.json'' \<or> b = ''settings*.py'' \<or>
      b = ''*.yaml'' \<or> b = ''*.yml''"
    by (simp add: CONFIG_PATTERNS_def)
  from a b neq assms(3,4) env_json env_py env_yaml env_yml json_py json_yaml json_yml py_yaml py_yml yaml_yml
  show False
    by (elim disjE) simp_all
qed

text \<open>The path string determines the path.\<close>

lemma takeWhile_sep:
  "CHR ''/'' \<notin> set c \<Longrightarrow> takeWhile (\<lambda>x. x \<noteq> CHR ''/'') (c @ CHR ''/'' # r) = c"
  by (induction c) auto

lemma dropWhile_sep:
  "CHR ''/'' \<notin> set c \<Longrightarrow> dropWhile (\<lambda>x. x \<noteq> CHR ''/'') (c @ CHR ''/'' # r) = CHR ''/'' # r"
  by (induction c) auto

lemma takeWhile_no_sep:
  "CHR ''/'' \<notin> set c \<Longrightarrow> takeWhile (\<lambda>x. x \<noteq> CHR ''/'') c = c"
  by (induction c) auto

lemma dropWhile_no_sep:
  "CHR ''/'' \<notin> set c \<Longrightarrow> dropWhile (\<lambda>x. x \<noteq> CHR ''/'') c = []"
  by (induction c) auto

lemma takeWhile_join_parts:
  "\<forall>c\<in>set (c0 # cs). CHR ''/'' \<notin> set c \<Longrightarrow>
     takeWhile (\<lambda>x. x \<noteq> CHR ''/'') (join_parts (c0 # cs)) = c0"
  by (cases cs) (simp_all add: takeWhile_sep takeWhile_no_sep)

lemma dropWhile_join_parts:
  "\<forall>c\<in>set (c0 # cs). CHR ''/'' \<notin> set c \<Longrightarrow>
     dropWhile (\<lambda>x. x \<noteq> CHR ''/'') (join_parts (c0 # cs)) =
       (if cs = [] then [] else CHR ''/'' # join_parts cs)"
  by (cases cs) (simp_all add: dropWhile_sep dropWhile_no_sep)

lemma join_parts_inject:
  assumes "join_parts cs = join_parts ds"
    and "cs \<noteq> []" and "ds \<noteq> []"
    and "\<forall>c\<in>set cs. CHR ''/'' \<notin> set c" and "\<forall>c\<in>set ds. CHR ''/'' \<notin> set c"
  shows "cs = ds"
  using assms
proof (induction cs arbitrary: ds)
  case Nil
  then show ?case by simp
next
  case (Cons c cs)
  then obtain d ds' where ds: "ds = d # ds'"
    by (cases ds) auto
  have tc: "takeWhile (\<lambda>x. x \<noteq> CHR ''/'') (join_parts (c # cs)) = c"
    by (rule takeWhile_join_parts) (rule Cons.prems(4))
  have td: "takeWhile (\<lambda>x. x \<noteq> CHR ''/'') (join_parts (d # ds')) = d"
    by (rule takeWhile_join_parts) (use Cons.prems(5) ds in simp)
  have dc: "dropWhile (\<lambda>x. x \<noteq> CHR ''/'') (join_parts (c # cs)) =
       (if cs = [] then [] else CHR ''/'' # join_parts cs)"
    by (rule dropWhile_join_parts) (rule Cons.prems(4))
  have dd: "dropWhile (\<lambda>x. x \<noteq> CHR ''/'') (join_parts (d # ds')) =
       (if ds' = [] then [] else CHR ''/'' # join_parts ds')"
    by (rule dropWhile_join_parts) (use Cons.prems(5) ds in simp)
  from Cons.prems(1) ds have same: "join_parts (c # cs) = join_parts (d # ds')"
    by simp
  from tc td same have cd: "c = d" by simp
  from dc dd same have tl_eq:
    "(if cs = [] then [] else CHR ''/'' # join_parts cs) =
     (if ds' = [] then [] else CHR ''/'' # join_parts ds')"
    by simp
  show ?case
  proof (cases "cs = []")
    case True
    with tl_eq have "ds' = []" by (auto split: if_splits)
    with True cd ds show ?thesis by simp
  next
    case False
    with tl_eq have ne: "ds' \<noteq> []" and eq: "join_parts cs = join_parts ds'"
      by (auto split: if_splits)
    from Cons.prems ds have "\<forall>c\<in>set cs. CHR ''/'' \<notin> set c" "\<forall>c\<in>set ds'. CHR ''/'' \<notin> set c"
      by auto
    with Cons.IH [OF eq False ne] cd ds show ?thesis by simp
  qed
qed

lemma str_inject: "wf_path p \<Longrightarrow> wf_path q \<Longrightarrow> str p = str q \<Longrightarrow> p = q"
  using join_parts_inject [of "parts p" "parts q"]
  by (cases p, cases q) (auto simp: wf_path_def str_def)

text \<open>What the loops do to the entries and to the keys of the dictionary.\<close>

lemma entries_Cons [simp]: "entries ((k, vs) # rest) = map (Pair k) vs @ entries rest"
  by (simp add: entries_def)

lemma entries_Nil [simp]: "entries [] = []"
  by (simp add: entries_def)

lemma map_snd_entries: "map snd (entries configs) = concat (map snd configs)"
  by (induction configs) (auto simp: comp_def)

lemma mset_entries_dict_append:
  "mset (entries (dict_append configs k v)) = mset (entries configs) + {#(k, v)#}"
  by (induction configs k v rule: dict_append.induct) auto

lemma keys_dict_append:
  "map fst (dict_append configs k v) =
     (if k \<in> fst ` set configs then map fst configs else map fst configs @ [k])"
  by (induction configs k v rule: dict_append.induct) (auto simp: image_iff)

lemma distinct_keys_dict_append:
  "distinct (map fst configs) \<Longrightarrow> distinct (map fst (dict_append configs k v))"
  by (simp add: keys_dict_append)

lemma mset_entries_scan_paths:
  "mset (entries (scan_paths configs ps)) =
     mset (entries configs) + mset (map (\<lambda>p. (name p, str p)) (filter (\<lambda>p. \<not> skipped p) ps))"
  by (induction ps arbitrary: configs) (auto simp: mset_entries_dict_append)

lemma distinct_keys_scan_paths:
  "distinct (map fst configs) \<Longrightarrow> distinct (map fst (scan_paths configs ps))"
  by (induction ps arbitrary: configs) (auto simp: distinct_keys_dict_append)

lemma mset_entries_scan_patterns:
  "mset (entries (scan_patterns tree configs pats)) =
     mset (entries configs) +
     mset (map (\<lambda>p. (name p, str p))
       (concat (map (\<lambda>pattern. filter (\<lambda>p. \<not> skipped p) (rglob tree pattern)) pats)))"
  by (induction pats arbitrary: configs) (auto simp: mset_entries_scan_paths)

lemma distinct_keys_scan_patterns:
  "distinct (map fst configs) \<Longrightarrow> distinct (map fst (scan_patterns tree configs pats))"
  by (induction pats arbitrary: configs) (auto simp: distinct_keys_scan_paths)

lemma mset_entries_find_config_files:
  "mset (entries (find_config_files tree)) = mset (map (\<lambda>p. (name p, str p)) (discovered tree))"
  by (simp add: find_config_files_def discovered_def mset_entries_scan_patterns)

lemma distinct_keys_find_config_files: "distinct (map fst (find_config_files tree))"
  by (simp add: find_config_files_def distinct_keys_scan_patterns)

lemma distinct_concat_filter:
  assumes "distinct xs"
    and "\<And>x a b. a \<in> set pats \<Longrightarrow> b \<in> set pats \<Longrightarrow> P a x \<Longrightarrow> P b x \<Longrightarrow> a = b"
    and "distinct pats"
  shows "distinct (concat (map (\<lambda>a. filter (P a) xs) pats))"
  using assms(2,3)
proof (induction pats)
  case Nil
  then show ?case by simp
next
  case (Cons a pats)
  have "distinct (concat (map (\<lambda>a. filter (P a) xs) pats))"
    using Cons by auto
  moreover have "set (filter (P a) xs) \<inter> set (concat (map (\<lambda>a. filter (P a) xs) pats)) = {}"
  proof (rule ccontr)
    assume "\<not> ?thesis"
    then obtain x b where "P a x" "b \<in> set pats" "P b x"
      by auto
    with Cons.prems(1) [of a b x] have "a = b" by simp
    with \<open>b \<in> set pats\<close> Cons.prems(2) show False by simp
  qed
  ultimately show ?case
    using assms(1) by simp
qed

lemma set_discovered:
  "set (discovered tree) =
     {p \<in> set tree. list_ex (fnmatch (name p)) CONFIG_PATTERNS \<and> \<not> skipped p}"
  by (auto simp: discovered_def rglob_def list_ex_iff)

lemma distinct_discovered:
  assumes "distinct tree"
  shows "distinct (discovered tree)"
proof -
  have eq: "discovered tree =
      concat (map (\<lambda>pattern. filter (\<lambda>p. fnmatch (name p) pattern \<and> \<not> skipped p) tree) CONFIG_PATTERNS)"
    by (simp add: discovered_def rglob_def conj_commute)
  have d: "distinct CONFIG_PATTERNS"
    by (simp add: CONFIG_PATTERNS_def)
  show ?thesis
    unfolding eq
    by (rule distinct_concat_filter [OF assms _ d]) (blast intro: patterns_disjoint)
qed

text \<open>
  C10. No file name matches two of the five patterns. Hence, for a tree whose paths are
  pairwise different, no path string occurs twice in the result of
  \<open>find_config_files\<close>, neither in two groups nor twice in one group; the keys are
  pairwise different; and every matched path that is not skipped is in the group keyed by
  its basename.
\<close>

theorem discovered_once:
  assumes "distinct tree" and "\<forall>p\<in>set tree. wf_path p"
  shows "length (filter (fnmatch n) CONFIG_PATTERNS) \<le> 1
       \<and> distinct (concat (map snd (find_config_files tree)))
       \<and> distinct (map fst (find_config_files tree))
       \<and> (\<forall>p\<in>set tree. list_ex (fnmatch (name p)) CONFIG_PATTERNS \<and> \<not> skipped p \<longrightarrow>
            (\<exists>ps. (name p, ps) \<in> set (find_config_files tree) \<and> str p \<in> set ps))"
proof (intro conjI ballI impI)
  have "distinct (filter (fnmatch n) CONFIG_PATTERNS)"
    by (simp add: CONFIG_PATTERNS_def)
  moreover have "\<forall>a\<in>set (filter (fnmatch n) CONFIG_PATTERNS). \<forall>b\<in>set (filter (fnmatch n) CONFIG_PATTERNS). a = b"
    by (auto intro: patterns_disjoint)
  ultimately have "card (set (filter (fnmatch n) CONFIG_PATTERNS)) \<le> Suc 0"
    by (subst card_le_Suc0_iff_eq) simp_all
  moreover have "card (set (filter (fnmatch n) CONFIG_PATTERNS)) = length (filter (fnmatch n) CONFIG_PATTERNS)"
    by (rule distinct_card) (simp add: CONFIG_PATTERNS_def)
  ultimately show "length (filter (fnmatch n) CONFIG_PATTERNS) \<le> 1"
    by (simp only: One_nat_def)
next
  have "inj_on str (set (discovered tree))"
    using assms(2) by (auto simp: inj_on_def set_discovered intro: str_inject)
  with distinct_discovered [OF assms(1)] have "distinct (map str (discovered tree))"
    by (simp add: distinct_map)
  moreover have "mset (concat (map snd (find_config_files tree))) = mset (map str (discovered tree))"
  proof -
    have "mset (map snd (entries (find_config_files tree))) =
          mset (map snd (map (\<lambda>p. (name p, str p)) (discovered tree)))"
      using mset_entries_find_config_files [of tree] by (metis mset_map)
    then show ?thesis
      by (simp add: map_snd_entries comp_def)
  qed
  ultimately show "distinct (concat (map snd (find_config_files tree)))"
    using mset_eq_imp_distinct_iff by blast
next
  show "distinct (map fst (find_config_files tree))"
    by (rule distinct_keys_find_config_files)
next
  fix p assume "p \<in> set tree" "list_ex (fnmatch (name p)) CONFIG_PATTERNS \<and> \<not> skipped p"
  then have "p \<in> set (discovered tree)"
    by (simp add: set_discovered)
  then have "(name p, str p) \<in># mset (map (\<lambda>p. (name p, str p)) (discovered tree))"
    by auto
  then have "(name p, str p) \<in> set (entries (find_config_files tree))"
    unfolding mset_entries_find_config_files [symmetric] by simp
  then show "\<exists>ps. (name p, ps) \<in> set (find_config_files tree) \<and> str p \<in> set ps"
    by (auto simp: entries_def)
qed

theorem discovered_once_witness:
  "distinct tree_example \<and> list_all wf_path tree_example \<and>
   length (filter (fnmatch ''config.json'') CONFIG_PATTERNS) \<le> 1 \<and>
   distinct (concat (map snd (find_config_files tree_example))) \<and>
   distinct (map fst (find_config_files tree_example)) \<and>
   (\<exists>ps. (''config.json'', ps) \<in> set (find_config_files tree_example) \<and> ''sub/config.json'' \<in> set ps)"
proof -
  have d: "distinct tree_example"
    by (simp add: tree_example_def)
  have w: "\<forall>p\<in>set tree_example. wf_path p"
    by (simp add: tree_example_def wf_path_def)
  then have w': "list_all wf_path tree_example"
    by (simp add: list_all_iff)
  have m: "Path [''sub'', ''config.json''] \<in> set tree_example"
    by (simp add: tree_example_def)
  have n: "name (Path [''sub'', ''config.json'']) = ''config.json''"
    and s: "str (Path [''sub'', ''config.json'']) = ''sub/config.json''"
    by (simp_all add: name_def str_def)
  have g: "list_ex (fnmatch (name (Path [''sub'', ''config.json'']))) CONFIG_PATTERNS"
    by (simp add: n CONFIG_PATTERNS_def)
  have k: "\<not> skipped (Path [''sub'', ''config.json''])"
    by (simp add: skipped_def EXCLUDED_def s sublist_code)
  note t = discovered_once [OF d w, of "''config.json''"]
  from t have a: "length (filter (fnmatch ''config.json'') CONFIG_PATTERNS) \<le> 1"
    by (rule conjunct1)
  from t have b: "distinct (concat (map snd (find_config_files tree_example)))"
    by blast
  from t have c: "distinct (map fst (find_config_files tree_example))"
    by blast
  from t have "\<forall>p\<in>set tree_example. list_ex (fnmatch (name p)) CONFIG_PATTERNS \<and> \<not> skipped p \<longrightarrow>
            (\<exists>ps. (name p, ps) \<in> set (find_config_files tree_example) \<and> str p \<in> set ps)"
    by blast
  from bspec [OF this m] g k
  have e: "\<exists>ps. (''config.json'', ps) \<in> set (find_config_files tree_example) \<and> ''sub/config.json'' \<in> set ps"
    by (simp add: n s)
  from d w' a b c e show ?thesis
    by (intro conjI)
qed

end
